theory Spec2Isabelle
  imports Complex_Main
begin

section \<open>The wave field solver of \<^verbatim>\<open>src/services/waveSolver.ts\<close>\<close>

text \<open>
  The class \<^verbatim>\<open>WaveSolver\<close> owns four \<^verbatim>\<open>Float32Array\<close>s and a side length. It is
  embedded as a record; every method takes the solver and returns the solver it leaves
  behind. JavaScript numbers that hold grid coordinates, sizes and indices are integers
  (\<open>int\<close>); field values, material constants and source parameters are real numbers
  (\<open>real\<close>). Arithmetic on field values is exact: the rounding of IEEE-754 doubles in the
  stencil and of stores into a \<^verbatim>\<open>Float32Array\<close> is not part of the model. Rounding is
  modelled where it decides which cell is touched: the scaled source position is rounded to
  a double before \<^verbatim>\<open>Math.floor\<close> (see \<open>toDouble\<close>).
\<close>

subsection \<open>Types and constants (\<^verbatim>\<open>types.ts\<close>, \<^verbatim>\<open>constants.ts\<close>)\<close>

datatype MaterialType = AIR | WATER | STEEL | CUSTOM

record MaterialProperties =
  name :: string
  speedOfSound :: real
  density :: real
  color :: string

fun MATERIALS :: "MaterialType \<Rightarrow> MaterialProperties" where
  "MATERIALS AIR =
     \<lparr>name = ''Air'', speedOfSound = 343, density = 1.225, color = ''#0f172a''\<rparr>"
| "MATERIALS WATER =
     \<lparr>name = ''Water'', speedOfSound = 1481, density = 997, color = ''#0ea5e9''\<rparr>"
| "MATERIALS STEEL =
     \<lparr>name = ''Steel'', speedOfSound = 5960, density = 7850, color = ''#94a3b8''\<rparr>"
| "MATERIALS CUSTOM =
     \<lparr>name = ''Metamaterial'', speedOfSound = 300, density = 1000, color = ''#d946ef''\<rparr>"

definition GRID_SIZE :: int where
  "GRID_SIZE = 120"

definition DX :: real where
  "DX = 0.01"

definition DT :: real where
  "DT = 0.000005"

subsection \<open>Typed arrays\<close>

text \<open>
  A \<^verbatim>\<open>Float32Array\<close> is a list of fixed length. The three operations the solver uses:
  \<^item> \<^verbatim>\<open>new Float32Array(n)\<close> gives \<open>n\<close> zeros and throws \<^verbatim>\<open>RangeError\<close> for a
    negative length. It also throws \<^verbatim>\<open>RangeError\<close> for a length above \<open>2\<^sup>5\<^sup>3 - 1\<close> and
    for a length the engine cannot allocate. \<open>newFloat32Array\<close> is the allocation on an
    engine that allocates every length; \<open>allocFloat32Array maxLength\<close> is the allocation
    on an engine whose largest array has \<open>maxLength\<close> cells, a parameter since it differs
    from engine to engine;
  \<^item> \<^verbatim>\<open>a[i] = v\<close> stores at an index inside the array and does nothing otherwise,
    it never throws and never extends the array;
  \<^item> \<^verbatim>\<open>a.set(b)\<close> copies all of \<open>b\<close> over the front of \<open>a\<close> and throws
    \<^verbatim>\<open>RangeError\<close> when \<open>b\<close> is longer than \<open>a\<close>.
  A read \<^verbatim>\<open>a[i]\<close> is \<open>a ! nat i\<close>; the solver reads only inside its arrays (see
  \<open>wellFormed\<close> below).
\<close>

datatype error = RangeError

definition newFloat32Array :: "int \<Rightarrow> error + real list" where
  "newFloat32Array n = (if n < 0 then Inl RangeError else Inr (replicate (nat n) 0))"

definition allocFloat32Array :: "nat \<Rightarrow> int \<Rightarrow> error + real list" where
  "allocFloat32Array maxLength n =
     (if n < 0 \<or> 2 ^ 53 - 1 < n \<or> int maxLength < n then Inl RangeError
      else Inr (replicate (nat n) 0))"

definition set_at :: "real list \<Rightarrow> int \<Rightarrow> real \<Rightarrow> real list" where
  "set_at a i v = (if 0 \<le> i \<and> i < int (length a) then a[nat i := v] else a)"

definition get_at :: "real list \<Rightarrow> int \<Rightarrow> real" where
  "get_at a i = a ! nat i"

definition typed_set :: "real list \<Rightarrow> real list \<Rightarrow> error + real list" where
  "typed_set a b =
     (if length a < length b then Inl RangeError else Inr (b @ drop (length b) a))"

subsection \<open>Counting loops\<close>

text \<open>
  Every loop of the solver is \<^verbatim>\<open>for (let i = a; i < n; i++) body\<close>, the body
  changing the arrays only. \<open>for_loop a n body st\<close> runs it from the state \<open>st\<close>.
\<close>

function for_loop :: "int \<Rightarrow> int \<Rightarrow> (int \<Rightarrow> 'a \<Rightarrow> 'a) \<Rightarrow> 'a \<Rightarrow> 'a" where
  "for_loop i n body st = (if i < n then for_loop (i + 1) n body (body i st) else st)"
  by pat_completeness auto
termination
  by (relation "measure (\<lambda>(i, n, body, st). nat (n - i))") auto

declare for_loop.simps [simp del]

subsection \<open>The solver state\<close>

record WaveSolver =
  u :: "real list"
  uPrev :: "real list"
  velocityMap :: "real list"
  dampingMap :: "real list"
  gridSize :: int

text \<open>
  The arrays are allocated with \<open>size * size\<close> cells by the constructor and no method
  replaces or resizes them or assigns \<^verbatim>\<open>this.size\<close>.
\<close>

definition wellFormed :: "WaveSolver \<Rightarrow> bool" where
  "wellFormed g \<longleftrightarrow>
     length (u g) = nat (gridSize g * gridSize g) \<and>
     length (uPrev g) = nat (gridSize g * gridSize g) \<and>
     length (velocityMap g) = nat (gridSize g * gridSize g) \<and>
     length (dampingMap g) = nat (gridSize g * gridSize g)"

subsection \<open>\<^verbatim>\<open>applyBoundaries\<close>, \<^verbatim>\<open>resetMaterialMap\<close> and the constructor\<close>

definition applyBoundaries :: "WaveSolver \<Rightarrow> WaveSolver" where
  "applyBoundaries g =
     (let padding = 10 :: int; s = gridSize g in
      g\<lparr>dampingMap :=
        for_loop 0 s (\<lambda>y. for_loop 0 s (\<lambda>x dm.
          if x < padding \<or> x \<ge> s - padding \<or> y < padding \<or> y \<ge> s - padding then
            let idx = y * s + x;
                dist = min (min x (s - 1 - x)) (min y (s - 1 - y));
                dampingFactor = 1.0 - 0.1 * ((real_of_int padding - real_of_int dist) / real_of_int padding)
            in set_at dm idx (max 0.8 dampingFactor)
          else dm)) (dampingMap g)\<rparr>)"

definition resetMaterialMap :: "WaveSolver \<Rightarrow> MaterialType \<Rightarrow> WaveSolver" where
  "resetMaterialMap g defaultMaterial =
     (let c = speedOfSound (MATERIALS defaultMaterial);
          c2 = c * c;
          (vm, dm) = for_loop 0 (int (length (velocityMap g)))
             (\<lambda>i (vm, dm). (set_at vm i c2, set_at dm i 1.0))
             (velocityMap g, dampingMap g)
      in applyBoundaries (g\<lparr>velocityMap := vm, dampingMap := dm\<rparr>))"

definition constructor :: "int \<Rightarrow> error + WaveSolver" where
  "constructor sz =
     (let totalPixels = sz * sz in
      (case newFloat32Array totalPixels of Inl e \<Rightarrow> Inl e | Inr a1 \<Rightarrow>
      (case newFloat32Array totalPixels of Inl e \<Rightarrow> Inl e | Inr a2 \<Rightarrow>
      (case newFloat32Array totalPixels of Inl e \<Rightarrow> Inl e | Inr a3 \<Rightarrow>
      (case newFloat32Array totalPixels of Inl e \<Rightarrow> Inl e | Inr a4 \<Rightarrow>
        Inr (resetMaterialMap
               \<lparr>u = a1, uPrev = a2, velocityMap = a3, dampingMap = a4, gridSize = sz\<rparr>
               AIR))))))"

text \<open>
  The constructor on an engine whose largest array has \<open>maxLength\<close> cells: the same
  statements, each allocation now failing beyond that length. \<open>constructor\<close> above is
  the constructor on an engine without such a limit.
\<close>

definition constructor_within :: "nat \<Rightarrow> int \<Rightarrow> error + WaveSolver" where
  "constructor_within maxLength sz =
     (let totalPixels = sz * sz in
      (case allocFloat32Array maxLength totalPixels of Inl e \<Rightarrow> Inl e | Inr a1 \<Rightarrow>
      (case allocFloat32Array maxLength totalPixels of Inl e \<Rightarrow> Inl e | Inr a2 \<Rightarrow>
      (case allocFloat32Array maxLength totalPixels of Inl e \<Rightarrow> Inl e | Inr a3 \<Rightarrow>
      (case allocFloat32Array maxLength totalPixels of Inl e \<Rightarrow> Inl e | Inr a4 \<Rightarrow>
        Inr (resetMaterialMap
               \<lparr>u = a1, uPrev = a2, velocityMap = a3, dampingMap = a4, gridSize = sz\<rparr>
               AIR))))))"

subsection \<open>\<^verbatim>\<open>updateMaterial\<close>\<close>

text \<open>
  The centre and the brush size are integers (the editor passes \<^verbatim>\<open>Math.floor\<close> of a
  pointer position and a brush size from a fixed list), so \<^verbatim>\<open>Math.floor(brushSize / 2)\<close>
  is \<open>brushSize div 2\<close>. The loops \<^verbatim>\<open>dy <= r\<close>, \<^verbatim>\<open>dx <= r\<close> run to \<open>r + 1\<close> exclusive.
\<close>

definition updateMaterial :: "WaveSolver \<Rightarrow> int \<Rightarrow> int \<Rightarrow> MaterialType \<Rightarrow> int \<Rightarrow> WaveSolver" where
  "updateMaterial g x y material brushSize =
     (let c = speedOfSound (MATERIALS material);
          c2 = c * c;
          r = brushSize div 2;
          s = gridSize g in
      g\<lparr>velocityMap :=
        for_loop (- r) (r + 1) (\<lambda>dy. for_loop (- r) (r + 1) (\<lambda>dx vm.
          let nx = x + dx; ny = y + dy in
          if nx \<ge> 0 \<and> nx < s \<and> ny \<ge> 0 \<and> ny < s then
            let idx = ny * s + nx in set_at vm idx c2
          else vm)) (velocityMap g)\<rparr>)"

subsection \<open>Source injection, \<^verbatim>\<open>step\<close> and \<^verbatim>\<open>stepOptimized\<close>\<close>

text \<open>
  The product \<^verbatim>\<open>sourceX * (s - 1)\<close> is a product of doubles: its exact value is rounded
  to the nearest double, ties to the even mantissa, before \<^verbatim>\<open>Math.floor\<close> sees it. The
  rounding can reach the next integer from below, so it is part of the model.
  \<open>toDouble x\<close> is the double nearest to \<open>x\<close>: the multiple of the unit in the last place
  of \<open>x\<close> (53-bit mantissa, least exponent \<open>-1022\<close>) that \<open>roundTiesToEven\<close> selects. It is
  meant for magnitudes below \<open>2\<^sup>1\<^sup>0\<^sup>2\<^sup>4\<close>, where a double does not overflow.
\<close>

definition roundTiesToEven :: "real \<Rightarrow> int" where
  "roundTiesToEven z =
     (let f = \<lfloor>z\<rfloor>; d = z - real_of_int f in
      if d < 1/2 then f else if 1/2 < d then f + 1 else if even f then f else f + 1)"

definition doubleExponent :: "real \<Rightarrow> int" where
  "doubleExponent x = max \<lfloor>log 2 \<bar>x\<bar>\<rfloor> (- 1022)"

definition toDouble :: "real \<Rightarrow> real" where
  "toDouble x =
     (if x = 0 then 0
      else let ulp = 2 powr real_of_int (doubleExponent x - 52)
           in real_of_int (roundTiesToEven (x / ulp)) * ulp)"

text \<open>
  Both stepping methods start with the same four statements (lines 70--77 and 126--131):
  the normalised source position is scaled by \<open>size - 1\<close> and rounded down, and the cell
  found is overwritten. For sides up to \<open>2\<^sup>2\<^sup>6\<close> the other operations on indices
  (\<^verbatim>\<open>s - 1\<close>, \<^verbatim>\<open>sy * s + sx\<close>) are exact in doubles.
\<close>

definition sourceIdx :: "int \<Rightarrow> real \<Rightarrow> real \<Rightarrow> int" where
  "sourceIdx s sourceX sourceY =
     (let sx = \<lfloor>toDouble (sourceX * real_of_int (s - 1))\<rfloor>;
          sy = \<lfloor>toDouble (sourceY * real_of_int (s - 1))\<rfloor>
      in sy * s + sx)"

definition injectSource :: "WaveSolver \<Rightarrow> real \<Rightarrow> real \<Rightarrow> real \<Rightarrow> real \<Rightarrow> real \<Rightarrow> WaveSolver" where
  "injectSource g sourceFreq sourceAmp sourceX sourceY time =
     g\<lparr>u := set_at (u g) (sourceIdx (gridSize g) sourceX sourceY)
                (sourceAmp * sin (2 * pi * sourceFreq * time))\<rparr>"

text \<open>
  \<^verbatim>\<open>step\<close>: after the injection the loop computes \<^verbatim>\<open>uNext\<close> for every interior cell
  into a local variable and stores it nowhere.
\<close>

definition step :: "WaveSolver \<Rightarrow> real \<Rightarrow> real \<Rightarrow> real \<Rightarrow> real \<Rightarrow> real \<Rightarrow> WaveSolver" where
  "step g sourceFreq sourceAmp sourceX sourceY time =
     (let s = gridSize g;
          g1 = injectSource g sourceFreq sourceAmp sourceX sourceY time;
          courrantNumberSq = (DT * DT) / (DX * DX) in
      for_loop 1 (s - 1) (\<lambda>y. 
        let rowOffset = y * s in
        for_loop 1 (s - 1) (\<lambda>x this.
          let i = rowOffset + x;
              uC = get_at (u this) i;
              uP = get_at (uPrev this) i;
              c2 = get_at (velocityMap this) i;
              damp = get_at (dampingMap this) i;
              laplacian = get_at (u this) (i + 1) + get_at (u this) (i - 1)
                        + get_at (u this) (i + s) + get_at (u this) (i - s) - 4 * uC;
              uNext = 2 * uC - uP + c2 * courrantNumberSq * laplacian;
              uNext = uNext * damp
          in this)) g1)"

text \<open>
  \<^verbatim>\<open>stepOptimized\<close>: a fresh buffer \<^verbatim>\<open>uNext\<close>, the injection, the sweep over the
  interior (the index \<open>i\<close> is carried along the row and incremented), then the two
  \<^verbatim>\<open>set\<close> calls that cycle the buffers. The returned array is \<open>u\<close> of the result.
\<close>

definition sweep :: "WaveSolver \<Rightarrow> real list \<Rightarrow> real list" where
  "sweep this uNext0 =
     (let s = gridSize this;
          courrantConst = (DT * DT) / (DX * DX) in
      for_loop 1 (s - 1) (\<lambda>y uNext.
        snd (for_loop 1 (s - 1) (\<lambda>x (i, uNext).
          let c2 = get_at (velocityMap this) i;
              val = 2 * get_at (u this) i - get_at (uPrev this) i
                  + c2 * courrantConst
                    * (get_at (u this) (i + 1) + get_at (u this) (i - 1)
                       + get_at (u this) (i + s) + get_at (u this) (i - s)
                       - 4 * get_at (u this) i)
          in (i + 1, set_at uNext i (val * get_at (dampingMap this) i)))
          (y * s + 1, uNext))) uNext0)"

definition stepOptimized ::
  "WaveSolver \<Rightarrow> real \<Rightarrow> real \<Rightarrow> real \<Rightarrow> real \<Rightarrow> real \<Rightarrow> error + WaveSolver" where
  "stepOptimized g sourceFreq sourceAmp sourceX sourceY time =
     (let s = gridSize g;
          sizeSq = s * s in
      (case newFloat32Array sizeSq of Inl e \<Rightarrow> Inl e | Inr uNext0 \<Rightarrow>
        (let g1 = injectSource g sourceFreq sourceAmp sourceX sourceY time;
             uNext = sweep g1 uNext0 in
         (case typed_set (uPrev g1) (u g1) of Inl e \<Rightarrow> Inl e | Inr p \<Rightarrow>
         (case typed_set (u g1) uNext of Inl e \<Rightarrow> Inl e | Inr c \<Rightarrow>
            Inr (g1\<lparr>uPrev := p, u := c\<rparr>))))))"

subsection \<open>Auxiliary notions for the statements and proofs\<close>

text \<open>
  \<open>edgeDistance s x y\<close> is the distance of cell \<open>(x, y)\<close> to the closest side of the
  grid, the \<^verbatim>\<open>dist\<close> of \<^verbatim>\<open>applyBoundaries\<close>.
\<close>

definition edgeDistance :: "int \<Rightarrow> int \<Rightarrow> int \<Rightarrow> int" where
  "edgeDistance s x y = min (min x (s - 1 - x)) (min y (s - 1 - y))"

text \<open>
  \<open>upd_on W w a b\<close>: the array \<open>b\<close> is the array \<open>a\<close> with the cells whose index is in
  \<open>W\<close> overwritten, cell \<open>j\<close> with \<open>w j\<close>, and with every other cell as it was.
\<close>

definition upd_on :: "int set \<Rightarrow> (int \<Rightarrow> real) \<Rightarrow> real list \<Rightarrow> real list \<Rightarrow> bool" where
  "upd_on W w a b \<longleftrightarrow>
     length b = length a \<and> (\<forall>j<length a. b ! j = (if int j \<in> W then w (int j) else a ! j))"

text \<open>
  \<open>stencilValue this i\<close> is the value the sweep of \<^verbatim>\<open>stepOptimized\<close> stores at
  \<^verbatim>\<open>uNext[i]\<close>; it reads the arrays of \<open>this\<close> only. \<open>interior s\<close> is the set of
  indices the sweep visits: the cells with both coordinates in \<open>1 .. s - 2\<close>.
\<close>

definition stencilValue :: "WaveSolver \<Rightarrow> int \<Rightarrow> real" where
  "stencilValue this i =
     (2 * get_at (u this) i - get_at (uPrev this) i
      + get_at (velocityMap this) i * ((DT * DT) / (DX * DX))
        * (get_at (u this) (i + 1) + get_at (u this) (i - 1)
           + get_at (u this) (i + gridSize this) + get_at (u this) (i - gridSize this)
           - 4 * get_at (u this) i))
     * get_at (dampingMap this) i"

definition interior :: "int \<Rightarrow> int set" where
  "interior s = {j. \<exists>x y. 1 \<le> x \<and> x < s - 1 \<and> 1 \<le> y \<and> y < s - 1 \<and> j = y * s + x}"

text \<open>
  \<open>brushCells s x y r\<close>: the indices of the cells of the grid that lie within \<open>r\<close> of
  the centre \<open>(x, y)\<close> in both coordinates.
\<close>

definition brushCells :: "int \<Rightarrow> int \<Rightarrow> int \<Rightarrow> int \<Rightarrow> int set" where
  "brushCells s x y r =
     {j. \<exists>nx ny. \<bar>nx - x\<bar> \<le> r \<and> \<bar>ny - y\<bar> \<le> r \<and> 0 \<le> nx \<and> nx < s \<and> 0 \<le> ny \<and> ny < s
                 \<and> j = ny * s + nx}"

text \<open>
  The wording of the specification for the driven cell, to be compared with
  \<open>sourceIdx\<close>: "the cell nearest the configured normalized position". Cell \<open>k\<close> of a
  row of \<open>s\<close> cells sits at the normalised coordinate \<open>k / (s - 1)\<close> (the inverse of the
  scaling in \<open>sourceIdx\<close>), so the nearest cell has coordinate \<open>round (x * (s - 1))\<close>.
\<close>

definition nearestCellIdx :: "int \<Rightarrow> real \<Rightarrow> real \<Rightarrow> int" where
  "nearestCellIdx s sourceX sourceY =
     round (sourceY * real_of_int (s - 1)) * s + round (sourceX * real_of_int (s - 1))"

text \<open>
  An example state: the solver of side length 3 as the constructor returns it (uniform
  air, every cell inside the boundary layer).
\<close>

definition grid3 :: WaveSolver where
  "grid3 = \<lparr>u = [0, 0, 0, 0, 0, 0, 0, 0, 0], uPrev = [0, 0, 0, 0, 0, 0, 0, 0, 0],
            velocityMap = [117649, 117649, 117649, 117649, 117649, 117649, 117649, 117649, 117649],
            dampingMap = [0.9, 0.9, 0.9, 0.9, 0.91, 0.9, 0.9, 0.9, 0.9], gridSize = 3\<rparr>"

text \<open>
  A second example state: a solver of side length 11, fields at rest, uniform air, no
  damping.
\<close>

definition grid11 :: WaveSolver where
  "grid11 = \<lparr>u = replicate 121 0, uPrev = replicate 121 0, velocityMap = replicate 121 117649,
             dampingMap = replicate 121 1, gridSize = 11\<rparr>"

section \<open>Rounding to doubles\<close>

lemma rte_le: "z \<le> real_of_int N \<Longrightarrow> roundTiesToEven z \<le> N"
proof -
  assume a: "z \<le> real_of_int N"
  have f: "\<lfloor>z\<rfloor> \<le> N" using a by (simp add: floor_le_iff) 
  show ?thesis
  proof (cases "\<lfloor>z\<rfloor> = N")
    case True
    then have "z = real_of_int N" using a of_int_floor_le [of z] by simp
    then show ?thesis by (simp add: roundTiesToEven_def)
  next
    case False
    then have "\<lfloor>z\<rfloor> + 1 \<le> N" using f by simp
    then show ?thesis by (simp add: roundTiesToEven_def Let_def)
  qed
qed

lemma rte_ge: "real_of_int N \<le> z \<Longrightarrow> N \<le> roundTiesToEven z"
proof -
  assume "real_of_int N \<le> z"
  then have "N \<le> \<lfloor>z\<rfloor>" by (simp add: le_floor_iff)
  then show ?thesis by (simp add: roundTiesToEven_def Let_def)
qed

lemma doubleExponent_le:
  assumes "x \<noteq> 0" "\<bar>x\<bar> < 2 ^ (52 - k)" "k \<le> 52"
  shows "doubleExponent x \<le> 52 - int k"
proof -
  have "\<bar>x\<bar> < 2 powr real (52 - k)" using assms(2) by (simp add: powr_realpow)
  then have "log 2 \<bar>x\<bar> < real (52 - k)" using assms(1) by (simp add: log_less_iff)
  then have "\<lfloor>log 2 \<bar>x\<bar>\<rfloor> < int (52 - k)" by (simp add: floor_less_iff)
  then show ?thesis using assms(3) by (simp add: doubleExponent_def)
qed

lemma ulp_dyadic:
  assumes "e \<le> 52 - int k"
  shows "real_of_int m / 2 ^ k
           = real_of_int (m * 2 ^ nat (52 - int k - e)) * 2 powr real_of_int (e - 52)"
proof -
  have "(2::real) ^ nat (52 - int k - e) * 2 powr real_of_int (e - 52) * 2 ^ k
          = 2 powr real_of_int (52 - int k - e) * 2 powr real_of_int (e - 52) * 2 powr real k"
    using assms by (simp add: powr_realpow [symmetric])
  also have "\<dots> = 2 powr (real_of_int (52 - int k - e) + real_of_int (e - 52) + real k)"
    by (simp only: powr_add)
  also have "\<dots> = 2 powr 0" by (rule arg_cong [where f = "\<lambda>t. 2 powr t"]) simp
  also have "\<dots> = 1" by simp
  finally have "(2::real) ^ nat (52 - int k - e) * 2 powr real_of_int (e - 52) = 1 / 2 ^ k"
    by (simp add: field_simps)
  then show ?thesis by (simp add: mult.assoc)
qed

lemma toDouble_le_dyadic:
  assumes "x \<le> real_of_int m / 2 ^ k" "\<bar>x\<bar> < 2 ^ (52 - k)" "k \<le> 52"
  shows "toDouble x \<le> real_of_int m / 2 ^ k"
proof (cases "x = 0")
  case True
  then show ?thesis using assms(1) by (simp add: toDouble_def)
next
  case False
  let ?e = "doubleExponent x"
  let ?ulp = "2 powr real_of_int (?e - 52)"
  let ?M = "m * 2 ^ nat (52 - int k - ?e)"
  have e: "?e \<le> 52 - int k" by (rule doubleExponent_le [OF False assms(2,3)])
  have y: "real_of_int m / 2 ^ k = real_of_int ?M * ?ulp" by (rule ulp_dyadic [OF e])
  have pos: "0 < ?ulp" by simp
  have "x / ?ulp \<le> real_of_int ?M" using assms(1) pos unfolding y by (simp add: field_simps)
  then have "roundTiesToEven (x / ?ulp) \<le> ?M" by (rule rte_le)
  then have "real_of_int (roundTiesToEven (x / ?ulp)) \<le> real_of_int ?M" by linarith
  then have "real_of_int (roundTiesToEven (x / ?ulp)) * ?ulp \<le> real_of_int ?M * ?ulp"
    using pos by (simp only: mult_le_cancel_right_pos)
  then show ?thesis using False unfolding y by (simp add: toDouble_def Let_def)
qed

lemma toDouble_ge_dyadic:
  assumes "real_of_int m / 2 ^ k \<le> x" "\<bar>x\<bar> < 2 ^ (52 - k)" "k \<le> 52"
  shows "real_of_int m / 2 ^ k \<le> toDouble x"
proof (cases "x = 0")
  case True
  then show ?thesis using assms(1) by (simp add: toDouble_def)
next
  case False
  let ?e = "doubleExponent x"
  let ?ulp = "2 powr real_of_int (?e - 52)"
  let ?M = "m * 2 ^ nat (52 - int k - ?e)"
  have e: "?e \<le> 52 - int k" by (rule doubleExponent_le [OF False assms(2,3)])
  have y: "real_of_int m / 2 ^ k = real_of_int ?M * ?ulp" by (rule ulp_dyadic [OF e])
  have pos: "0 < ?ulp" by simp
  have "real_of_int ?M \<le> x / ?ulp" using assms(1) pos unfolding y by (simp add: field_simps)
  then have "?M \<le> roundTiesToEven (x / ?ulp)" by (rule rte_ge)
  then have "real_of_int ?M \<le> real_of_int (roundTiesToEven (x / ?ulp))" by linarith
  then have "real_of_int ?M * ?ulp \<le> real_of_int (roundTiesToEven (x / ?ulp)) * ?ulp"
    using pos by (simp only: mult_le_cancel_right_pos)
  then show ?thesis using False unfolding y by (simp add: toDouble_def Let_def)
qed

lemma toDouble_of_int:
  assumes "\<bar>m\<bar> < 2 ^ 52"
  shows "toDouble (real_of_int m) = real_of_int m"
proof -
  have b: "\<bar>real_of_int m\<bar> < 2 ^ (52 - 0)"
    using assms by (metis diff_zero of_int_abs of_int_less_numeral_power_cancel_iff)
  have "toDouble (real_of_int m) \<le> real_of_int m / 2 ^ 0"
    by (rule toDouble_le_dyadic [OF _ b]) simp_all
  moreover have "real_of_int m / 2 ^ 0 \<le> toDouble (real_of_int m)"
    by (rule toDouble_ge_dyadic [OF _ b]) simp_all
  ultimately show ?thesis by simp
qed

lemma toDouble_small [simp]: "toDouble 0 = 0" "toDouble 1 = 1" "toDouble 2 = 2"
  using toDouble_of_int [of 0] toDouble_of_int [of 1] toDouble_of_int [of 2] by simp_all

lemma toDouble_range:
  assumes "0 \<le> z" "z \<le> real_of_int n" "n < 2 ^ 52"
  shows "0 \<le> toDouble z \<and> toDouble z \<le> real_of_int n"
proof -
  have "\<bar>z\<bar> \<le> real_of_int n" using assms by simp
  also have "real_of_int n < 2 ^ 52" using assms(3) by (metis of_int_less_numeral_power_cancel_iff)
  finally have b: "\<bar>z\<bar> < 2 ^ (52 - 0)" by simp
  have "real_of_int 0 / 2 ^ 0 \<le> toDouble z"
    by (rule toDouble_ge_dyadic [OF _ b]) (simp_all add: assms)
  moreover have "toDouble z \<le> real_of_int n / 2 ^ 0"
    by (rule toDouble_le_dyadic [OF _ b]) (simp_all add: assms)
  ultimately show ?thesis by simp
qed

lemma toDouble_four_fifths: "0 \<le> toDouble (4/5) \<and> toDouble (4/5) < 1"
proof -
  have b: "\<bar>4/5::real\<bar> < 2 ^ (52 - 3)" by simp
  have "real_of_int 0 / 2 ^ 3 \<le> toDouble (4/5)"
    by (rule toDouble_ge_dyadic [OF _ b]) simp_all
  moreover have "toDouble (4/5) \<le> real_of_int 7 / 2 ^ 3"
    by (rule toDouble_le_dyadic [OF _ b]) simp_all
  ultimately show ?thesis by simp
qed

text \<open>
  The rounding matters. The double nearest to 0.7 is \<open>3152519739159347 / 2\<^sup>5\<^sup>2\<close>; its exact
  product with 10 is \<open>7 - 2\<^sup>-\<^sup>5\<^sup>1\<close>, halfway between two doubles, and rounds to 7.
\<close>

lemma toDouble_tie_example:
  "toDouble (3152519739159347 / 2 ^ 52 * 10) = 7"
proof -
  let ?x = "3152519739159347 / 2 ^ 52 * 10 :: real"
  have x: "?x = 7 - 1 / 2 ^ 51" by simp
  have pos: "0 < ?x" by simp
  have "\<lfloor>log 2 \<bar>?x\<bar>\<rfloor> = 2"
    using pos by (simp add: floor_log_eq_powr_iff powr_realpow del: abs_divide)
  then have e: "doubleExponent ?x = 2" by (simp add: doubleExponent_def)
  have ulp: "2 powr real_of_int (doubleExponent ?x - 52) = 1 / 2 ^ 50"
    unfolding e by (simp add: powr_neg_numeral)
  have q: "?x / (1 / 2 ^ 50) = real_of_int (7 * 2 ^ 50 - 1) + 1 / 2" by simp
  have fl: "\<lfloor>?x / (1 / 2 ^ 50)\<rfloor> = 7 * 2 ^ 50 - 1" unfolding q by (simp add: floor_eq_iff)
  have "roundTiesToEven (?x / (1 / 2 ^ 50)) = 7 * 2 ^ 50"
    unfolding roundTiesToEven_def Let_def fl unfolding q by simp
  then show ?thesis
    unfolding toDouble_def Let_def ulp by simp
qed

lemma floor_toDouble_four_fifths [simp]: "\<lfloor>toDouble (4/5)\<rfloor> = 0"
  using toDouble_four_fifths by (simp add: floor_eq_iff)

section \<open>Loops and array writes\<close>

lemma for_loop_ge: "n \<le> i \<Longrightarrow> for_loop i n body st = st"
  by (simp add: for_loop.simps)

lemma for_loop_step: "i < n \<Longrightarrow> for_loop i n body st = for_loop (i + 1) n body (body i st)"
  by (subst for_loop.simps) simp

lemma for_loop_inv:
  assumes "i \<le> n" and "P i st"
    and "\<And>k st. i \<le> k \<Longrightarrow> k < n \<Longrightarrow> P k st \<Longrightarrow> P (k + 1) (body k st)"
  shows "P n (for_loop i n body st)"
  using assms
proof (induction i n body st rule: for_loop.induct)
  case (1 i n body st)
  show ?case
  proof (cases "i < n")
    case True
    have "P n (for_loop (i + 1) n body (body i st))"
    proof (rule "1.IH" [OF True])
      show "i + 1 \<le> n" using True by simp
      show "P (i + 1) (body i st)" using "1.prems" True by simp
      show "\<And>k st. i + 1 \<le> k \<Longrightarrow> k < n \<Longrightarrow> P k st \<Longrightarrow> P (k + 1) (body k st)"
        using "1.prems"(3) by simp
    qed
    then show ?thesis using True by (simp add: for_loop_step)
  next
    case False
    then have "i = n" using "1.prems"(1) by simp
    then show ?thesis using "1.prems"(2) by (simp add: for_loop_ge)
  qed
qed

lemma for_loop_id: "(\<And>k st. body k st = st) \<Longrightarrow> for_loop i n body st = st"
  by (induction i n body st rule: for_loop.induct) (simp add: for_loop.simps)

lemma upd_on_refl: "upd_on {} w a a"
  by (simp add: upd_on_def)

lemma upd_on_set_at: "v = w i \<Longrightarrow> upd_on {i} w a (set_at a i v)"
  by (auto simp: upd_on_def set_at_def nth_list_update)

lemma upd_on_trans: "upd_on W1 w a b \<Longrightarrow> upd_on W2 w b c \<Longrightarrow> upd_on (W1 \<union> W2) w a c"
  by (auto simp: upd_on_def)

lemma upd_on_nth:
  "upd_on W w a b \<Longrightarrow> j < length a \<Longrightarrow> b ! j = (if int j \<in> W then w (int j) else a ! j)"
  by (simp add: upd_on_def)

lemma upd_on_idem: "upd_on W w a b \<Longrightarrow> upd_on W w b c \<Longrightarrow> c = b"
  by (auto simp: upd_on_def list_eq_iff_nth_eq)

lemma upd_on_for_loop:
  assumes "\<And>k st. i \<le> k \<Longrightarrow> k < n \<Longrightarrow> upd_on (W k) w st (body k st)"
  shows "upd_on (\<Union>k\<in>{i..<n}. W k) w a (for_loop i n body a)"
proof (cases "i \<le> n")
  case True
  have "upd_on (\<Union>k\<in>{i..<n}. W k) w a (for_loop i n body a)"
  proof (rule for_loop_inv [where P = "\<lambda>k st. upd_on (\<Union>j\<in>{i..<k}. W j) w a st", OF True])
    show "upd_on (\<Union>j\<in>{i..<i}. W j) w a a" by (simp add: upd_on_refl)
  next
    fix k st
    assume k: "i \<le> k" "k < n" and st: "upd_on (\<Union>j\<in>{i..<k}. W j) w a st"
    have eq: "{i..<k + 1} = insert k {i..<k}" using k by auto
    have "upd_on ((\<Union>j\<in>{i..<k}. W j) \<union> W k) w a (body k st)"
      by (rule upd_on_trans [OF st assms [OF k]])
    then show "upd_on (\<Union>j\<in>{i..<k + 1}. W j) w a (body k st)"
      by (simp add: eq Un_commute)
  qed
  then show ?thesis .
next
  case False
  then show ?thesis by (simp add: for_loop_ge upd_on_refl)
qed

subsection \<open>Row-major cell indices\<close>

lemma cell_mod: "0 \<le> x \<Longrightarrow> x < s \<Longrightarrow> (y * s + x) mod s = (x::int)"
  by simp

lemma cell_div: "0 \<le> x \<Longrightarrow> x < s \<Longrightarrow> (y * s + x) div s = (y::int)"
  by simp

lemma cell_inj:
  assumes "0 \<le> x" "x < s" "0 \<le> x'" "x' < s" "y * s + x = y' * s + (x'::int)"
  shows "x = x' \<and> y = y'"
proof -
  have "(y * s + x) mod s = (y' * s + x') mod s" "(y * s + x) div s = (y' * s + x') div s"
    using assms(5) by simp_all
  then show ?thesis using assms(1-4) by (simp add: cell_mod cell_div)
qed

lemma cell_range:
  assumes "0 \<le> x" "x < s" "0 \<le> y" "y < (s::int)"
  shows "0 \<le> y * s + x \<and> y * s + x < s * s"
proof -
  have "y * s + x < y * s + s" using assms by simp
  also have "\<dots> = (y + 1) * s" by (simp add: algebra_simps)
  also have "\<dots> \<le> s * s" using assms by (intro mult_right_mono) auto
  finally show ?thesis using assms by simp
qed

lemma cell_nat:
  assumes "0 \<le> x" "x < s" "0 \<le> y" "y < (s::int)"
  shows "int (nat (y * s + x)) = y * s + x" "nat (y * s + x) < nat (s * s)"
  using cell_range [OF assms] by simp_all

lemma edgeDistance_nonneg:
  "0 \<le> x \<Longrightarrow> x < s \<Longrightarrow> 0 \<le> y \<Longrightarrow> y < s \<Longrightarrow> 0 \<le> edgeDistance s x y"
  by (simp add: edgeDistance_def)

lemma interior_mem:
  assumes "0 \<le> x" "x < s" "0 \<le> y" "y < s"
  shows "y * s + x \<in> interior s \<longleftrightarrow> 0 < x \<and> x < s - 1 \<and> 0 < y \<and> y < s - 1"
proof
  assume "y * s + x \<in> interior s"
  then obtain x' y' where xy: "1 \<le> x'" "x' < s - 1" "1 \<le> y'" "y' < s - 1" "y * s + x = y' * s + x'"
    unfolding interior_def by blast
  then have "x = x' \<and> y = y'" using assms by (intro cell_inj [of x s x' y y']) auto
  then show "0 < x \<and> x < s - 1 \<and> 0 < y \<and> y < s - 1" using xy by simp
next
  assume "0 < x \<and> x < s - 1 \<and> 0 < y \<and> y < s - 1"
  then have "1 \<le> x \<and> x < s - 1 \<and> 1 \<le> y \<and> y < s - 1 \<and> y * s + x = y * s + x" by simp
  then show "y * s + x \<in> interior s" unfolding interior_def by blast
qed

lemma brushCells_mem:
  assumes "0 \<le> x" "x < s" "0 \<le> y" "y < s"
  shows "y * s + x \<in> brushCells s cx cy h \<longleftrightarrow> \<bar>x - cx\<bar> \<le> h \<and> \<bar>y - cy\<bar> \<le> h"
proof
  assume "y * s + x \<in> brushCells s cx cy h"
  then obtain nx ny where n: "\<bar>nx - cx\<bar> \<le> h" "\<bar>ny - cy\<bar> \<le> h" "0 \<le> nx" "nx < s"
      "y * s + x = ny * s + nx"
    unfolding brushCells_def by blast
  have "x = nx \<and> y = ny" using assms(1,2) n(3,4,5) by (rule cell_inj)
  then show "\<bar>x - cx\<bar> \<le> h \<and> \<bar>y - cy\<bar> \<le> h" using n(1,2) by simp
next
  assume "\<bar>x - cx\<bar> \<le> h \<and> \<bar>y - cy\<bar> \<le> h"
  then have "\<bar>x - cx\<bar> \<le> h \<and> \<bar>y - cy\<bar> \<le> h \<and> 0 \<le> x \<and> x < s \<and> 0 \<le> y \<and> y < s
      \<and> y * s + x = y * s + x"
    using assms by simp
  then show "y * s + x \<in> brushCells s cx cy h" unfolding brushCells_def by blast
qed

lemma square_card:
  assumes "0 \<le> (h::int)"
  shows "card {(nx, ny). \<bar>nx - cx\<bar> \<le> h \<and> \<bar>ny - cy\<bar> \<le> h} = nat ((2 * h + 1)\<^sup>2)"
proof -
  have "{(nx, ny). \<bar>nx - cx\<bar> \<le> h \<and> \<bar>ny - cy\<bar> \<le> h} = {cx - h..cx + h} \<times> {cy - h..cy + h}"
    by (auto simp: abs_le_iff)
  moreover have "card ({cx - h..cx + h} \<times> {cy - h..cy + h}) = nat (2 * h + 1) * nat (2 * h + 1)"
    by (simp add: card_cartesian_product)
  moreover have "nat (2 * h + 1) * nat (2 * h + 1) = nat ((2 * h + 1)\<^sup>2)"
    using assms by (simp add: power2_eq_square nat_mult_distrib)
  ultimately show ?thesis by simp
qed

section \<open>Construction and the boundary layer\<close>

lemma fill_loop:
  assumes "length vm = n" "length dm = n"
  shows "for_loop 0 (int n) (\<lambda>i (vm, dm). (set_at vm i c2, set_at dm i d1)) (vm, dm)
         = (replicate n c2, replicate n d1)"
proof -
  let ?P = "\<lambda>k (st :: real list \<times> real list). length (fst st) = n \<and> length (snd st) = n \<and>
              (\<forall>j<nat k. fst st ! j = c2 \<and> snd st ! j = d1)"
  have "?P (int n) (for_loop 0 (int n) (\<lambda>i (vm, dm). (set_at vm i c2, set_at dm i d1)) (vm, dm))"
  proof (rule for_loop_inv [where P = ?P])
    show "0 \<le> int n" by simp
    show "?P 0 (vm, dm)" using assms by simp
  next
    fix k and st :: "real list \<times> real list"
    assume k: "0 \<le> k" "k < int n" and P: "?P k st"
    obtain a b where st: "st = (a, b)" by (cases st)
    have "nat (k + 1) = Suc (nat k)" using k by simp
    then show "?P (k + 1) ((\<lambda>i (vm, dm). (set_at vm i c2, set_at dm i d1)) k st)"
      using P k by (auto simp: st set_at_def nth_list_update less_Suc_eq)
  qed
  then show ?thesis
    by (auto simp: list_eq_iff_nth_eq prod_eq_iff)
qed

lemma applyBoundaries_upd:
  "upd_on {j. \<exists>x y. 0 \<le> x \<and> x < gridSize g \<and> 0 \<le> y \<and> y < gridSize g
               \<and> edgeDistance (gridSize g) x y < 10 \<and> j = y * gridSize g + x}
     (\<lambda>j. max 0.8 (1 - 0.1 * ((10 - real_of_int
            (edgeDistance (gridSize g) (j mod gridSize g) (j div gridSize g))) / 10)))
     (dampingMap g) (dampingMap (applyBoundaries g))"
proof -
  let ?s = "gridSize g"
  let ?w = "\<lambda>j. max 0.8 (1 - 0.1 * ((10 - real_of_int (edgeDistance ?s (j mod ?s) (j div ?s))) / 10))"
  let ?c = "\<lambda>x y. x < 10 \<or> x \<ge> ?s - 10 \<or> y < 10 \<or> y \<ge> ?s - 10"
  let ?body = "\<lambda>y x dm. if ?c x y then
            let idx = y * ?s + x;
                dist = min (min x (?s - 1 - x)) (min y (?s - 1 - y));
                dampingFactor = 1.0 - 0.1 * ((real_of_int 10 - real_of_int dist) / real_of_int 10)
            in set_at dm idx (max 0.8 dampingFactor)
          else dm"
  have inner: "upd_on (if ?c x y then {y * ?s + x} else {}) ?w dm (?body y x dm)"
    if "0 \<le> x" "x < ?s" for x y dm
  proof (cases "?c x y")
    case True
    have "upd_on {y * ?s + x} ?w dm
            (set_at dm (y * ?s + x) (max 0.8 (1 - 0.1 * ((10 - real_of_int (edgeDistance ?s x y)) / 10))))"
      by (rule upd_on_set_at) (simp add: that cell_mod cell_div)
    then show ?thesis using True by (simp add: Let_def edgeDistance_def)
  next
    case False
    then show ?thesis by (simp add: upd_on_refl)
  qed
  have row: "upd_on (\<Union>x\<in>{0..<?s}. if ?c x y then {y * ?s + x} else {}) ?w dm
               (for_loop 0 ?s (?body y) dm)" for y dm
    by (rule upd_on_for_loop) (rule inner)
  have all: "upd_on (\<Union>y\<in>{0..<?s}. \<Union>x\<in>{0..<?s}. if ?c x y then {y * ?s + x} else {}) ?w
               (dampingMap g) (for_loop 0 ?s (\<lambda>y. for_loop 0 ?s (?body y)) (dampingMap g))"
    by (rule upd_on_for_loop) (rule row)
  have W: "(\<Union>y\<in>{0..<?s}. \<Union>x\<in>{0..<?s}. if ?c x y then {y * ?s + x} else {})
         = {j. \<exists>x y. 0 \<le> x \<and> x < ?s \<and> 0 \<le> y \<and> y < ?s \<and> edgeDistance ?s x y < 10 \<and> j = y * ?s + x}"
  proof (intro set_eqI iffI)
    fix j assume "j \<in> (\<Union>y\<in>{0..<?s}. \<Union>x\<in>{0..<?s}. if ?c x y then {y * ?s + x} else {})"
    then obtain x y where xy: "0 \<le> x" "x < ?s" "0 \<le> y" "y < ?s" "?c x y" "j = y * ?s + x"
      by (auto split: if_splits)
    then have "edgeDistance ?s x y < 10" unfolding edgeDistance_def by linarith
    then show "j \<in> {j. \<exists>x y. 0 \<le> x \<and> x < ?s \<and> 0 \<le> y \<and> y < ?s \<and> edgeDistance ?s x y < 10 \<and> j = y * ?s + x}"
      using xy by blast
  next
    fix j assume "j \<in> {j. \<exists>x y. 0 \<le> x \<and> x < ?s \<and> 0 \<le> y \<and> y < ?s \<and> edgeDistance ?s x y < 10 \<and> j = y * ?s + x}"
    then obtain x y where xy: "0 \<le> x" "x < ?s" "0 \<le> y" "y < ?s" "edgeDistance ?s x y < 10" "j = y * ?s + x"
      by auto
    then have "?c x y" unfolding edgeDistance_def by linarith
    then have "j \<in> (if ?c x y then {y * ?s + x} else {})" using xy by simp
    then show "j \<in> (\<Union>y\<in>{0..<?s}. \<Union>x\<in>{0..<?s}. if ?c x y then {y * ?s + x} else {})"
      using xy(1-4) by (intro UN_I [of y] UN_I [of x]) auto
  qed
  show ?thesis
    unfolding applyBoundaries_def Let_def using all [unfolded W Let_def] by simp
qed

lemma applyBoundaries_other [simp]:
  "u (applyBoundaries g) = u g" "uPrev (applyBoundaries g) = uPrev g"
  "velocityMap (applyBoundaries g) = velocityMap g" "gridSize (applyBoundaries g) = gridSize g"
  by (simp_all add: applyBoundaries_def Let_def)

lemma applyBoundaries_length [simp]:
  "length (dampingMap (applyBoundaries g)) = length (dampingMap g)"
  using applyBoundaries_upd [of g] by (simp add: upd_on_def)

lemma resetMaterialMap_eq:
  assumes "length (velocityMap g) = length (dampingMap g)"
  shows "resetMaterialMap g m =
           applyBoundaries (g\<lparr>velocityMap := replicate (length (velocityMap g))
                                  (speedOfSound (MATERIALS m) * speedOfSound (MATERIALS m)),
                                dampingMap := replicate (length (velocityMap g)) 1\<rparr>)"
proof -
  have fl: "for_loop 0 (int (length (velocityMap g)))
              (\<lambda>i (vm, dm). (set_at vm i (speedOfSound (MATERIALS m) * speedOfSound (MATERIALS m)),
                                set_at dm i 1.0))
              (velocityMap g, dampingMap g)
            = (replicate (length (velocityMap g)) (speedOfSound (MATERIALS m) * speedOfSound (MATERIALS m)),
               replicate (length (velocityMap g)) 1.0)"
    by (rule fill_loop) (simp_all add: assms)
  show ?thesis
    unfolding resetMaterialMap_def Let_def fl by simp
qed

lemma wellFormed_resetMaterialMap: "wellFormed g \<Longrightarrow> wellFormed (resetMaterialMap g m)"
  by (simp add: resetMaterialMap_eq wellFormed_def)

lemma constructor_eq:
  "constructor sz = Inr (resetMaterialMap
     \<lparr>u = replicate (nat (sz * sz)) 0, uPrev = replicate (nat (sz * sz)) 0,
      velocityMap = replicate (nat (sz * sz)) 0, dampingMap = replicate (nat (sz * sz)) 0,
      gridSize = sz\<rparr> AIR)"
  by (simp add: constructor_def newFloat32Array_def Let_def)

lemma wellFormed_grid3: "wellFormed grid3"
  by (simp add: wellFormed_def grid3_def)

lemma gridSize_grid3: "gridSize grid3 = 3"
  by (simp add: grid3_def)

lemma constructor_3: "constructor 3 = Inr grid3"
  by (simp add: constructor_eq resetMaterialMap_eq applyBoundaries_def for_loop.simps
      set_at_def grid3_def Let_def eval_nat_numeral)

lemma damping_cell:
  assumes wf: "wellFormed g"
    and xy: "0 \<le> x" "x < gridSize g" "0 \<le> y" "y < gridSize g"
  shows "dampingMap (resetMaterialMap g m) ! nat (y * gridSize g + x) =
           (if edgeDistance (gridSize g) x y < 10
            then max 0.8 (1 - 0.1 * ((10 - real_of_int (edgeDistance (gridSize g) x y)) / 10))
            else 1)"
proof -
  let ?s = "gridSize g"
  let ?n = "nat (?s * ?s)"
  let ?g1 = "g\<lparr>velocityMap := replicate (length (velocityMap g))
                 (speedOfSound (MATERIALS m) * speedOfSound (MATERIALS m)),
               dampingMap := replicate (length (velocityMap g)) 1\<rparr>"
  let ?j = "nat (y * ?s + x)"
  have len: "length (velocityMap g) = ?n" "length (dampingMap g) = ?n"
    using wf by (simp_all add: wellFormed_def)
  have eq: "resetMaterialMap g m = applyBoundaries ?g1"
    by (rule resetMaterialMap_eq) (simp add: len)
  have j: "int ?j = y * ?s + x" "?j < ?n" using cell_nat [OF xy] .
  have mem: "(\<exists>x' y'. 0 \<le> x' \<and> x' < ?s \<and> 0 \<le> y' \<and> y' < ?s \<and> edgeDistance ?s x' y' < 10
                  \<and> y * ?s + x = y' * ?s + x') \<longleftrightarrow> edgeDistance ?s x y < 10"
    using xy cell_inj [of x ?s _ y] by blast
  have raw: "dampingMap (applyBoundaries ?g1) ! ?j =
      (if int ?j \<in> {j. \<exists>x y. 0 \<le> x \<and> x < gridSize ?g1 \<and> 0 \<le> y \<and> y < gridSize ?g1
               \<and> edgeDistance (gridSize ?g1) x y < 10 \<and> j = y * gridSize ?g1 + x}
       then max 0.8 (1 - 0.1 * ((10 - real_of_int
            (edgeDistance (gridSize ?g1) (int ?j mod gridSize ?g1) (int ?j div gridSize ?g1))) / 10))
       else dampingMap ?g1 ! ?j)"
    by (rule upd_on_nth [OF applyBoundaries_upd]) (use j(2) in \<open>simp add: len\<close>)
  have inW: "int ?j \<in> {j. \<exists>x y. 0 \<le> x \<and> x < gridSize ?g1 \<and> 0 \<le> y \<and> y < gridSize ?g1
               \<and> edgeDistance (gridSize ?g1) x y < 10 \<and> j = y * gridSize ?g1 + x}
             \<longleftrightarrow> edgeDistance ?s x y < 10"
    unfolding j(1) using mem by simp
  have md: "int ?j mod gridSize ?g1 = x" "int ?j div gridSize ?g1 = y"
    unfolding j(1) using xy by (simp_all add: cell_mod cell_div)
  have old: "dampingMap ?g1 ! ?j = 1" using j(2) by (simp add: len)
  show ?thesis
    unfolding eq raw inW md old by simp
qed

lemma constructor_within_eq:
  "constructor_within maxLength sz =
     (if 2 ^ 53 - 1 < sz * sz \<or> int maxLength < sz * sz then Inl RangeError else constructor sz)"
  by (simp add: constructor_within_def constructor_def allocFloat32Array_def newFloat32Array_def
      Let_def)

text \<open>
  Claim C8 (as amended). A non-positive side length is not rejected: the constructor checks
  no precondition. For size 0 and for every negative size whose square is a length the
  engine allocates, it returns a solver of that side length whose four arrays have
  \<open>size * size\<close> cells (none for size 0), the two fields all zero. With a non-positive size
  it fails only when \<open>size * size\<close> is beyond what the engine allocates, and then with the
  \<^verbatim>\<open>RangeError\<close> of the array allocation.
\<close>

theorem constructor_nonpositive_size:
  assumes "sz \<le> 0"
  shows "(sz * sz \<le> int maxLength \<and> sz * sz \<le> 2 ^ 53 - 1 \<longrightarrow>
            (\<exists>g. constructor_within maxLength sz = Inr g \<and> gridSize g = sz \<and> wellFormed g
                 \<and> u g = replicate (nat (sz * sz)) 0 \<and> uPrev g = replicate (nat (sz * sz)) 0))
       \<and> (int maxLength < sz * sz \<or> 2 ^ 53 - 1 < sz * sz \<longrightarrow>
            constructor_within maxLength sz = Inl RangeError)"
proof -
  let ?g0 = "\<lparr>u = replicate (nat (sz * sz)) 0, uPrev = replicate (nat (sz * sz)) 0,
      velocityMap = replicate (nat (sz * sz)) 0, dampingMap = replicate (nat (sz * sz)) 0,
      gridSize = sz\<rparr>"
  have wf: "wellFormed ?g0" by (simp add: wellFormed_def)
  have "wellFormed (resetMaterialMap ?g0 AIR)" by (rule wellFormed_resetMaterialMap [OF wf])
  moreover have "gridSize (resetMaterialMap ?g0 AIR) = sz"
    "u (resetMaterialMap ?g0 AIR) = replicate (nat (sz * sz)) 0"
    "uPrev (resetMaterialMap ?g0 AIR) = replicate (nat (sz * sz)) 0"
    by (simp_all add: resetMaterialMap_eq)
  ultimately show ?thesis by (auto simp add: constructor_within_eq constructor_eq)
qed

text \<open>
  At size \<open>-1\<close> on an engine that allocates one cell the constructor returns a solver; at
  size \<open>-2\<close> on the same engine the allocation of four cells fails.
\<close>

theorem constructor_nonpositive_size_witness:
  "(- 1 :: int) \<le> 0 \<and> (\<exists>g. constructor_within 1 (- 1) = Inr g \<and> gridSize g = - 1)
   \<and> (- 2 :: int) \<le> 0 \<and> constructor_within 1 (- 2) = Inl RangeError"
proof -
  have h: "(- 1 :: int) \<le> 0" "(- 2 :: int) \<le> 0" by simp_all
  show ?thesis
    using constructor_nonpositive_size [OF h(1), of 1] constructor_nonpositive_size [OF h(2), of 1]
    by auto
qed

text \<open>
  Claim C8 as stated fails at the sizes \<open>0\<close> and \<open>-1\<close>, here on an engine that allocates up
  to \<open>2\<^sup>3\<^sup>2 - 1\<close> cells: the constructor returns a solver, with four empty arrays at size
  0 and four one-cell arrays at size \<open>-1\<close>.
\<close>

theorem constructor_zero_counterexample:
  "constructor_within 4294967295 0
     = Inr \<lparr>u = [], uPrev = [], velocityMap = [], dampingMap = [], gridSize = 0\<rparr>
   \<and> constructor_within 4294967295 (- 1)
     = Inr \<lparr>u = [0], uPrev = [0], velocityMap = [117649], dampingMap = [1], gridSize = - 1\<rparr>"
  by (simp add: constructor_within_eq constructor_eq resetMaterialMap_eq applyBoundaries_def
      for_loop_ge)

text \<open>
  Claim C5. After \<^verbatim>\<open>resetMaterialMap\<close> (which fills the damping map with 1.0 and
  then applies the boundary layer with padding 10), a cell at distance \<open>d\<close> from the
  closest side has damping 1.0 if \<open>d \<ge> 10\<close>, and otherwise
  \<open>max 0.8 (1.0 - 0.1 * (10 - d) / 10)\<close>, which is below 1.0 and at least 0.8; of two
  cells, the one farther from the sides has the larger or equal damping.
\<close>

theorem damping_after_reset:
  assumes "wellFormed g"
    and "0 \<le> x" "x < gridSize g" "0 \<le> y" "y < gridSize g"
    and "0 \<le> x'" "x' < gridSize g" "0 \<le> y'" "y' < gridSize g"
  shows "(10 \<le> edgeDistance (gridSize g) x y \<longrightarrow>
            dampingMap (resetMaterialMap g m) ! nat (y * gridSize g + x) = 1.0)
       \<and> (edgeDistance (gridSize g) x y < 10 \<longrightarrow>
            dampingMap (resetMaterialMap g m) ! nat (y * gridSize g + x)
              = max 0.8 (1.0 - 0.1 * (10 - real_of_int (edgeDistance (gridSize g) x y)) / 10)
          \<and> dampingMap (resetMaterialMap g m) ! nat (y * gridSize g + x) < 1.0
          \<and> 0.8 \<le> dampingMap (resetMaterialMap g m) ! nat (y * gridSize g + x))
       \<and> (edgeDistance (gridSize g) x y \<le> edgeDistance (gridSize g) x' y' \<longrightarrow>
            dampingMap (resetMaterialMap g m) ! nat (y * gridSize g + x)
              \<le> dampingMap (resetMaterialMap g m) ! nat (y' * gridSize g + x'))"
proof -
  let ?s = "gridSize g"
  have d: "0 \<le> edgeDistance ?s x y" "0 \<le> edgeDistance ?s x' y'"
    using assms by (simp_all add: edgeDistance_nonneg)
  show ?thesis
    using d by (simp add: damping_cell [OF assms(1-5)] damping_cell [OF assms(1) assms(6-9)])
qed

text \<open>
  The hypotheses hold on the 3 by 3 solver: its corner has distance 0 and damping 0.9,
  its centre distance 1 and damping 0.91.
\<close>

theorem damping_after_reset_witness:
  "wellFormed grid3 \<and> (0::int) \<le> 1 \<and> 1 < gridSize grid3 \<and> (0::int) \<le> 0 \<and> 0 < gridSize grid3
   \<and> dampingMap (resetMaterialMap grid3 WATER) ! 0 = 0.9
   \<and> dampingMap (resetMaterialMap grid3 WATER) ! 4 = 0.91"
proof -
  have h: "(0::int) \<le> 1" "1 < gridSize grid3" "(0::int) \<le> 0" "0 < gridSize grid3"
    by (simp_all add: gridSize_grid3)
  have e: "edgeDistance 3 0 0 = 0" "edgeDistance 3 1 1 = 1" by (simp_all add: edgeDistance_def)
  show ?thesis
    using damping_after_reset [OF wellFormed_grid3 h(3) h(4) h(3) h(4) h(1) h(2) h(1) h(2), of WATER]
      damping_after_reset [OF wellFormed_grid3 h(1) h(2) h(1) h(2) h(3) h(4) h(3) h(4), of WATER] h
    unfolding gridSize_grid3 e
    by (simp add: wellFormed_grid3)
qed

section \<open>The time step\<close>

lemma row_loop:
  "upd_on {i0..<i0 + (n - x0)} w un0
     (snd (for_loop x0 n (\<lambda>x (i, un). (i + 1, set_at un i (w i))) (i0, un0)))"
proof (cases "x0 \<le> n")
  case True
  let ?P = "\<lambda>k (st :: int \<times> real list). fst st = i0 + (k - x0) \<and> upd_on {i0..<i0 + (k - x0)} w un0 (snd st)"
  have "?P n (for_loop x0 n (\<lambda>x (i, un). (i + 1, set_at un i (w i))) (i0, un0))"
  proof (rule for_loop_inv [where P = ?P, OF True])
    show "?P x0 (i0, un0)" by (simp add: upd_on_refl)
  next
    fix k and st :: "int \<times> real list"
    assume k: "x0 \<le> k" "k < n" and P: "?P k st"
    obtain i un where st: "st = (i, un)" by (cases st)
    have i: "i = i0 + (k - x0)" and un: "upd_on {i0..<i0 + (k - x0)} w un0 un"
      using P by (simp_all add: st)
    have "upd_on ({i0..<i0 + (k - x0)} \<union> {i}) w un0 (set_at un i (w i))"
      by (rule upd_on_trans [OF un upd_on_set_at]) simp
    moreover have "{i0..<i0 + (k - x0)} \<union> {i} = {i0..<i0 + (k + 1 - x0)}"
      using k i by auto
    ultimately show "?P (k + 1) ((\<lambda>x (i, un). (i + 1, set_at un i (w i))) k st)"
      using i by (simp add: st)
  qed
  then show ?thesis by simp
next
  case False
  then show ?thesis by (simp add: for_loop_ge upd_on_refl)
qed

lemma sweep_upd: "upd_on (interior (gridSize g)) (stencilValue g) un0 (sweep g un0)"
proof -
  let ?s = "gridSize g"
  let ?row = "\<lambda>y un. snd (for_loop 1 (?s - 1)
                 (\<lambda>x (i, un). (i + 1, set_at un i (stencilValue g i))) (y * ?s + 1, un))"
  have sw: "sweep g un0 = for_loop 1 (?s - 1) ?row un0"
    unfolding sweep_def Let_def stencilValue_def by (rule refl)
  have "upd_on (\<Union>y\<in>{1..<?s - 1}. {y * ?s + 1..<y * ?s + 1 + (?s - 1 - 1)}) (stencilValue g)
          un0 (for_loop 1 (?s - 1) ?row un0)"
    by (rule upd_on_for_loop) (rule row_loop)
  moreover have "(\<Union>y\<in>{1..<?s - 1}. {y * ?s + 1..<y * ?s + 1 + (?s - 1 - 1)}) = interior ?s"
  proof (intro set_eqI iffI)
    fix j assume "j \<in> (\<Union>y\<in>{1..<?s - 1}. {y * ?s + 1..<y * ?s + 1 + (?s - 1 - 1)})"
    then obtain y where y: "1 \<le> y" "y < ?s - 1" "y * ?s + 1 \<le> j" "j < y * ?s + 1 + (?s - 1 - 1)"
      by auto
    then have "1 \<le> j - y * ?s \<and> j - y * ?s < ?s - 1 \<and> 1 \<le> y \<and> y < ?s - 1 \<and> j = y * ?s + (j - y * ?s)"
      by simp
    then show "j \<in> interior ?s" unfolding interior_def by blast
  next
    fix j assume "j \<in> interior ?s"
    then obtain x y where xy: "1 \<le> x" "x < ?s - 1" "1 \<le> y" "y < ?s - 1" "j = y * ?s + x"
      unfolding interior_def by blast
    then have "j \<in> {y * ?s + 1..<y * ?s + 1 + (?s - 1 - 1)}" by simp
    then show "j \<in> (\<Union>y\<in>{1..<?s - 1}. {y * ?s + 1..<y * ?s + 1 + (?s - 1 - 1)})"
      using xy(3,4) by (intro UN_I [of y]) auto
  qed
  ultimately show ?thesis by (simp only: sw)
qed

lemma injectSource_other [simp]:
  "uPrev (injectSource g f a px py t) = uPrev g"
  "velocityMap (injectSource g f a px py t) = velocityMap g"
  "dampingMap (injectSource g f a px py t) = dampingMap g"
  "gridSize (injectSource g f a px py t) = gridSize g"
  "length (u (injectSource g f a px py t)) = length (u g)"
  by (simp_all add: injectSource_def set_at_def)

lemma typed_set_same: "length a = length b \<Longrightarrow> typed_set a b = Inr b"
  by (simp add: typed_set_def)

lemma stepOptimized_eq:
  assumes "wellFormed g"
  shows "stepOptimized g f a px py t =
           Inr ((injectSource g f a px py t)
                  \<lparr>uPrev := u (injectSource g f a px py t),
                   u := sweep (injectSource g f a px py t)
                          (replicate (nat (gridSize g * gridSize g)) 0)\<rparr>)"
proof -
  let ?g1 = "injectSource g f a px py t"
  let ?z = "replicate (nat (gridSize g * gridSize g)) (0::real)"
  have len: "length (u ?g1) = nat (gridSize g * gridSize g)" "length (uPrev ?g1) = nat (gridSize g * gridSize g)"
    using assms by (simp_all add: wellFormed_def)
  have "length (sweep ?g1 ?z) = length ?z"
    using sweep_upd [of ?g1 ?z] by (simp add: upd_on_def)
  then have l2: "length (u ?g1) = length (sweep ?g1 ?z)" using len by simp
  have l1: "length (uPrev g) = length (u ?g1)" using len by simp
  show ?thesis
    unfolding stepOptimized_def Let_def newFloat32Array_def
    by (simp add: typed_set_same [OF l1] typed_set_same [OF l2])
qed

lemma stepOptimized_cell:
  assumes "wellFormed g" "j < nat (gridSize g * gridSize g)"
  shows "u ((injectSource g f a px py t)
                  \<lparr>uPrev := u (injectSource g f a px py t),
                   u := sweep (injectSource g f a px py t)
                          (replicate (nat (gridSize g * gridSize g)) 0)\<rparr>) ! j
         = (if int j \<in> interior (gridSize g) then stencilValue (injectSource g f a px py t) (int j) else 0)"
  using upd_on_nth [OF sweep_upd [of "injectSource g f a px py t" "replicate (nat (gridSize g * gridSize g)) 0"], of j]
    assms(2) by simp

lemma inject_grid3:
  "u (injectSource grid3 1 1 (1/2) 0 (1/4)) = [0, 1, 0, 0, 0, 0, 0, 0, 0]"
  by (simp add: injectSource_def sourceIdx_def grid3_def set_at_def)

lemma sourceIdx_range:
  assumes "1 \<le> s" "s \<le> 2 ^ 26" "0 \<le> px" "px \<le> 1" "0 \<le> py" "py \<le> 1"
  shows "0 \<le> sourceIdx s px py \<and> sourceIdx s px py < s * s"
proof -
  let ?sx = "\<lfloor>toDouble (px * real_of_int (s - 1))\<rfloor>" and ?sy = "\<lfloor>toDouble (py * real_of_int (s - 1))\<rfloor>"
  have r: "0 \<le> real_of_int (s - 1)" using assms(1) by simp
  have b: "s - 1 < 2 ^ 52" using assms(2) by simp
  have px: "0 \<le> px * real_of_int (s - 1)" using assms(3) r by (rule mult_nonneg_nonneg)
  have "px * real_of_int (s - 1) \<le> 1 * real_of_int (s - 1)" using assms(4) r by (rule mult_right_mono)
  then have "px * real_of_int (s - 1) \<le> real_of_int (s - 1)" by simp
  then have "0 \<le> toDouble (px * real_of_int (s - 1)) \<and> toDouble (px * real_of_int (s - 1)) \<le> real_of_int (s - 1)"
    using px b by (intro toDouble_range)
  then have sx: "0 \<le> ?sx" "?sx < s" by (simp_all add: floor_less_iff)
  have py: "0 \<le> py * real_of_int (s - 1)" using assms(5) r by (rule mult_nonneg_nonneg)
  have "py * real_of_int (s - 1) \<le> 1 * real_of_int (s - 1)" using assms(6) r by (rule mult_right_mono)
  then have "py * real_of_int (s - 1) \<le> real_of_int (s - 1)" by simp
  then have "0 \<le> toDouble (py * real_of_int (s - 1)) \<and> toDouble (py * real_of_int (s - 1)) \<le> real_of_int (s - 1)"
    using py b by (intro toDouble_range)
  then have sy: "0 \<le> ?sy" "?sy < s" by (simp_all add: floor_less_iff)
  show ?thesis
    unfolding sourceIdx_def Let_def using cell_range [OF sx sy] .
qed

lemma wellFormed_grid11: "wellFormed grid11"
  by (simp add: wellFormed_def grid11_def)

lemma gridSize_grid11: "gridSize grid11 = 11"
  by (simp add: grid11_def)

lemma sourceIdx_rounding_example: "sourceIdx 11 (3152519739159347 / 2 ^ 52) 0 = 7"
proof -
  have "(3152519739159347 / 2 ^ 52 :: real) * real_of_int (11 - 1) = 3152519739159347 / 2 ^ 52 * 10"
    by simp
  then show ?thesis
    unfolding sourceIdx_def Let_def by (simp only: toDouble_tie_example) simp
qed

lemma step_eq: "step g f a px py t = injectSource g f a px py t"
  unfolding step_def Let_def by (simp add: for_loop_id)

text \<open>
  Claim C1. For a solver whose arrays have \<open>size * size\<close> cells and every interior cell
  \<open>i = y * size + x\<close> (both coordinates strictly between 0 and \<open>size - 1\<close>), one call
  of \<^verbatim>\<open>stepOptimized\<close> returns normally and leaves at \<open>i\<close> of the current field
  \<open>damping[i] * (2 * cur[i] - uPrev[i] + velocity[i] * (DT / DX)\<^sup>2 * (cur[i + 1] + cur[i - 1]
  + cur[i + size] + cur[i - size] - 4 * cur[i]))\<close>, where \<open>cur\<close> is the current field after
  the source injection and \<open>uPrev\<close> the previous field before the call, with
  \<open>DT = 0.000005\<close> and \<open>DX = 0.01\<close>.
\<close>

theorem stepOptimized_interior_update:
  assumes "wellFormed g" "0 < x" "x < gridSize g - 1" "0 < y" "y < gridSize g - 1"
  shows "let s = gridSize g; i = y * s + x; cur = u (injectSource g f a px py t) in
         \<exists>g'. stepOptimized g f a px py t = Inr g' \<and>
           get_at (u g') i =
             get_at (dampingMap g) i
             * (2 * get_at cur i - get_at (uPrev g) i
                + get_at (velocityMap g) i * (DT / DX)\<^sup>2
                  * (get_at cur (i + 1) + get_at cur (i - 1) + get_at cur (i + s) + get_at cur (i - s)
                     - 4 * get_at cur i))
           \<and> DT = 0.000005 \<and> DX = 0.01"
proof -
  let ?s = "gridSize g"
  have xy: "0 \<le> x" "x < ?s" "0 \<le> y" "y < ?s" using assms by simp_all
  have j: "int (nat (y * ?s + x)) = y * ?s + x" "nat (y * ?s + x) < nat (?s * ?s)"
    using cell_nat [OF xy] .
  have mem: "y * ?s + x \<in> interior ?s" using interior_mem [OF xy] assms by simp
  have "u ((injectSource g f a px py t)
                  \<lparr>uPrev := u (injectSource g f a px py t),
                   u := sweep (injectSource g f a px py t)
                          (replicate (nat (gridSize g * gridSize g)) 0)\<rparr>) ! nat (y * ?s + x)
        = stencilValue (injectSource g f a px py t) (y * ?s + x)"
    unfolding stepOptimized_cell [OF assms(1) j(2)] j(1) using mem by simp
  then show ?thesis
    unfolding stepOptimized_eq [OF assms(1)] Let_def
    by (simp add: get_at_def stencilValue_def DT_def DX_def power2_eq_square)
qed

text \<open>
  On the 3 by 3 solver with the source driven to 1 in the cell above the centre, the
  centre becomes \<open>0.91 * 117649 * (DT / DX)\<^sup>2\<close>.
\<close>

theorem stepOptimized_interior_update_witness:
  "wellFormed grid3 \<and> (0::int) < 1 \<and> (1::int) < gridSize grid3 - 1 \<and>
   (\<exists>g'. stepOptimized grid3 1 1 (1/2) 0 (1/4) = Inr g' \<and> get_at (u g') 4 = 0.0267651475)"
proof -
  have h: "(0::int) < 1" "(1::int) < gridSize grid3 - 1" by (simp_all add: grid3_def)
  have gs: "gridSize grid3 = 3" "dampingMap grid3 = [0.9, 0.9, 0.9, 0.9, 0.91, 0.9, 0.9, 0.9, 0.9]"
    "uPrev grid3 = [0, 0, 0, 0, 0, 0, 0, 0, 0]"
    "velocityMap grid3 = [117649, 117649, 117649, 117649, 117649, 117649, 117649, 117649, 117649]"
    by (simp_all add: grid3_def)
  show ?thesis
    using stepOptimized_interior_update [OF wellFormed_grid3 h(1) h(2) h(1) h(2), of 1 1 "1/2" 0 "1/4"] h
    unfolding Let_def gs inject_grid3
    by (auto simp add: wellFormed_grid3 get_at_def DT_def DX_def power2_eq_square)
qed

text \<open>
  Claim C2 (as amended). For a solver of side length between 1 and \<open>2\<^sup>2\<^sup>6\<close> and a
  normalised position in the unit square, the driven cell is the one in column
  \<open>\<lfloor>x * (size - 1)\<rfloor>\<close> and row \<open>\<lfloor>y * (size - 1)\<rfloor>\<close>, each product taken as the code computes
  it, rounded to the nearest double; it lies in the grid. Before the sweep reads the field
  this cell holds exactly \<open>a * sin (2 * pi * f * t)\<close>, whatever it held before, every other
  cell of the current field is as it was, and the sweep runs on that field; after the call
  the value is found in the previous field.
\<close>

theorem source_cell_overwritten:
  assumes "wellFormed g" "1 \<le> gridSize g" "gridSize g \<le> 2 ^ 26"
    and "0 \<le> px" "px \<le> 1" "0 \<le> py" "py \<le> 1"
  shows "let s = gridSize g; i = sourceIdx s px py; cur = u (injectSource g f a px py t) in
           i = \<lfloor>toDouble (py * real_of_int (s - 1))\<rfloor> * s + \<lfloor>toDouble (px * real_of_int (s - 1))\<rfloor>
         \<and> 0 \<le> i \<and> i < s * s
         \<and> get_at cur i = a * sin (2 * pi * f * t)
         \<and> (\<forall>j<length (u g). int j \<noteq> i \<longrightarrow> cur ! j = u g ! j)
         \<and> (\<exists>g'. stepOptimized g f a px py t = Inr g'
                \<and> u g' = sweep (g\<lparr>u := cur\<rparr>) (replicate (nat (s * s)) 0)
                \<and> get_at (uPrev g') i = a * sin (2 * pi * f * t))"
proof -
  let ?s = "gridSize g"
  let ?i = "sourceIdx ?s px py"
  let ?g1 = "injectSource g f a px py t"
  have rng: "0 \<le> ?i" "?i < ?s * ?s" using sourceIdx_range [OF assms(2-7)] by simp_all
  have len: "length (u g) = nat (?s * ?s)" using assms(1) by (simp add: wellFormed_def)
  have val: "get_at (u ?g1) ?i = a * sin (2 * pi * f * t)"
    using rng len by (simp add: injectSource_def set_at_def get_at_def)
  have frame: "\<forall>j<length (u g). int j \<noteq> ?i \<longrightarrow> u ?g1 ! j = u g ! j"
    by (auto simp: injectSource_def set_at_def nth_list_update)
  have g1: "g\<lparr>u := u ?g1\<rparr> = ?g1" by (simp add: injectSource_def)
  show ?thesis
    unfolding Let_def stepOptimized_eq [OF assms(1)] g1
    using rng val frame by (simp add: sourceIdx_def get_at_def)
qed

text \<open>
  The hypotheses hold on the solver of side length 11 with the source at the double nearest
  to 0.7 in the top row: the driven cell is cell 7, where the rounded product is 7 and the
  exact product is below 7.
\<close>

theorem source_cell_overwritten_witness:
  "wellFormed grid11 \<and> 1 \<le> gridSize grid11 \<and> gridSize grid11 \<le> 2 ^ 26
   \<and> (0::real) \<le> 3152519739159347 / 2 ^ 52 \<and> (3152519739159347 / 2 ^ 52 :: real) \<le> 1
   \<and> sourceIdx 11 (3152519739159347 / 2 ^ 52) 0 = 7
   \<and> get_at (u (injectSource grid11 1 1 (3152519739159347 / 2 ^ 52) 0 (1/4))) 7 = 1"
proof -
  have h: "1 \<le> gridSize grid11" "gridSize grid11 \<le> 2 ^ 26"
    "(0::real) \<le> 3152519739159347 / 2 ^ 52" "(3152519739159347 / 2 ^ 52 :: real) \<le> 1"
    "(0::real) \<le> 0" "(0::real) \<le> 1"
    by (simp_all add: gridSize_grid11)
  show ?thesis
    using source_cell_overwritten [OF wellFormed_grid11 h, of 1 1 "1/4"] h(1-4)
    unfolding Let_def gridSize_grid11 sourceIdx_rounding_example
    by (simp add: wellFormed_grid11)
qed

text \<open>
  Claim C2 as stated fails on the 3 by 3 solver with the source at \<open>(0.4, 0.4)\<close>: the
  nearest cell is the centre, cell 4, and before the sweep it does not hold the source
  value; the driven cell is cell 0.
\<close>

theorem nearest_cell_counterexample:
  "sourceIdx 3 (2/5) (2/5) = 0 \<and> nearestCellIdx 3 (2/5) (2/5) = 4
   \<and> get_at (u (injectSource grid3 1 1 (2/5) (2/5) (1/4))) (nearestCellIdx 3 (2/5) (2/5))
       \<noteq> 1 * sin (2 * pi * 1 * (1/4))"
  by (simp add: sourceIdx_def nearestCellIdx_def round_def injectSource_def set_at_def get_at_def
      grid3_def)

text \<open>
  Claim C3. The sweep reads the solver after the injection and writes a buffer of its
  own, which starts as zeros. After one call the previous field is the current field as
  the sweep read it (the current field before the call with the source value stored),
  the current field is the buffer the sweep computed: in every interior cell the stencil
  value computed from the fields the sweep read, zero elsewhere. The two maps and the
  side length are unchanged.
\<close>

theorem stepOptimized_buffers:
  assumes "wellFormed g"
  shows "\<exists>g'. stepOptimized g f a px py t = Inr g'
           \<and> uPrev g' = u (injectSource g f a px py t)
           \<and> u g' = sweep (injectSource g f a px py t) (replicate (nat (gridSize g * gridSize g)) 0)
           \<and> (\<forall>j<nat (gridSize g * gridSize g).
                 u g' ! j = (if int j \<in> interior (gridSize g)
                             then stencilValue (injectSource g f a px py t) (int j) else 0))
           \<and> u (injectSource g f a px py t)
               = set_at (u g) (sourceIdx (gridSize g) px py) (a * sin (2 * pi * f * t))
           \<and> velocityMap g' = velocityMap g \<and> dampingMap g' = dampingMap g
           \<and> gridSize g' = gridSize g \<and> wellFormed g'"
proof -
  let ?g1 = "injectSource g f a px py t"
  let ?z = "replicate (nat (gridSize g * gridSize g)) (0::real)"
  let ?g' = "?g1\<lparr>uPrev := u ?g1, u := sweep ?g1 ?z\<rparr>"
  have cells: "\<forall>j<nat (gridSize g * gridSize g).
      u ?g' ! j = (if int j \<in> interior (gridSize g) then stencilValue ?g1 (int j) else 0)"
    using stepOptimized_cell [OF assms] by blast
  have len: "length (sweep ?g1 ?z) = length ?z"
    using sweep_upd [of ?g1 ?z] by (simp add: upd_on_def)
  have wf: "wellFormed ?g'"
    using assms len by (simp add: wellFormed_def)
  have inj: "u ?g1 = set_at (u g) (sourceIdx (gridSize g) px py) (a * sin (2 * pi * f * t))"
    by (simp add: injectSource_def)
  show ?thesis
    unfolding stepOptimized_eq [OF assms]
    using cells wf inj by simp
qed

text \<open>
  On the 3 by 3 solver with the source driven to 1 in cell 1, the previous field after
  the call is the zero field with 1 in cell 1.
\<close>

theorem stepOptimized_buffers_witness:
  "wellFormed grid3 \<and>
   (\<exists>g'. stepOptimized grid3 1 1 (1/2) 0 (1/4) = Inr g'
      \<and> uPrev g' = [0, 1, 0, 0, 0, 0, 0, 0, 0] \<and> gridSize g' = 3)"
  using stepOptimized_buffers [OF wellFormed_grid3, of 1 1 "1/2" 0 "1/4"]
  unfolding inject_grid3
  by (auto simp add: wellFormed_grid3 gridSize_grid3)

text \<open>
  Claim C4 (as amended). The sweep writes no edge cell of the buffer it fills. After the
  call every edge cell of the current field is 0, whatever it held before, and the
  previous field holds at every edge cell what the current field held there when the
  sweep ran: the value from before the call, unless the cell is the driven cell.
\<close>

theorem stepOptimized_edge_cells:
  assumes "wellFormed g"
    and "0 \<le> x" "x < gridSize g" "0 \<le> y" "y < gridSize g"
    and "x = 0 \<or> x = gridSize g - 1 \<or> y = 0 \<or> y = gridSize g - 1"
  shows "\<exists>g'. stepOptimized g f a px py t = Inr g'
           \<and> get_at (u g') (y * gridSize g + x) = 0
           \<and> get_at (uPrev g') (y * gridSize g + x)
               = get_at (u (injectSource g f a px py t)) (y * gridSize g + x)
           \<and> (y * gridSize g + x \<noteq> sourceIdx (gridSize g) px py \<longrightarrow>
                get_at (uPrev g') (y * gridSize g + x) = get_at (u g) (y * gridSize g + x))"
proof -
  let ?s = "gridSize g"
  let ?g1 = "injectSource g f a px py t"
  have j: "int (nat (y * ?s + x)) = y * ?s + x" "nat (y * ?s + x) < nat (?s * ?s)"
    using cell_nat [OF assms(2-5)] .
  have nmem: "y * ?s + x \<notin> interior ?s" using interior_mem [OF assms(2-5)] assms(6) by auto
  have new: "u (?g1\<lparr>uPrev := u ?g1,
                   u := sweep ?g1 (replicate (nat (?s * ?s)) 0)\<rparr>) ! nat (y * ?s + x) = 0"
    unfolding stepOptimized_cell [OF assms(1) j(2)] j(1) using nmem by simp
  have old: "y * ?s + x \<noteq> sourceIdx ?s px py \<longrightarrow> u ?g1 ! nat (y * ?s + x) = u g ! nat (y * ?s + x)"
  proof
    assume ne: "y * ?s + x \<noteq> sourceIdx ?s px py"
    have "0 \<le> y * ?s + x" using cell_range [OF assms(2-5)] by simp
    then have "0 \<le> sourceIdx ?s px py \<Longrightarrow> nat (sourceIdx ?s px py) \<noteq> nat (y * ?s + x)"
      using ne by simp
    then show "u ?g1 ! nat (y * ?s + x) = u g ! nat (y * ?s + x)"
      by (simp add: injectSource_def set_at_def)
  qed
  show ?thesis
    unfolding stepOptimized_eq [OF assms(1)]
    using new old by (simp add: get_at_def)
qed

text \<open>
  On the 3 by 3 solver the corner cell 0 is an edge cell; with the source in cell 1 it is
  0 in both fields after the call.
\<close>

theorem stepOptimized_edge_cells_witness:
  "wellFormed grid3 \<and> (0::int) \<le> 0 \<and> 0 < gridSize grid3 \<and>
   (\<exists>g'. stepOptimized grid3 1 1 (1/2) 0 (1/4) = Inr g' \<and> get_at (u g') 0 = 0 \<and> get_at (uPrev g') 0 = 0)"
proof -
  have h: "(0::int) \<le> 0" "0 < gridSize grid3"
    "(0::int) = 0 \<or> (0::int) = gridSize grid3 - 1 \<or> (0::int) = 0 \<or> (0::int) = gridSize grid3 - 1"
    by (simp_all add: gridSize_grid3)
  show ?thesis
    using stepOptimized_edge_cells [OF wellFormed_grid3 h(1) h(2) h(1) h(2) h(3), of 1 1 "1/2" 0 "1/4"] h(1,2)
    unfolding inject_grid3
    by (auto simp add: wellFormed_grid3 get_at_def)
qed

text \<open>
  Claim C4 as stated fails on the solver that \<open>constructor 3\<close> returns. Driving the corner
  cell 0 with \<^verbatim>\<open>stepOptimized\<close> leaves 1 in the previous field there, which was 0
  initially, with no reset. And after \<^verbatim>\<open>step\<close> has stored 1 in the corner cell, a call
  of \<^verbatim>\<open>stepOptimized\<close> with the source in the opposite corner (cell 8) changes the
  corner cell 0 of the current field from 1 to 0.
\<close>

theorem edge_cells_counterexample:
  "constructor 3 = Inr grid3
   \<and> stepOptimized grid3 1 1 0 0 (1/4) = Inr (grid3\<lparr>uPrev := [1, 0, 0, 0, 0, 0, 0, 0, 0]\<rparr>)
   \<and> step grid3 1 1 0 0 (1/4) = grid3\<lparr>u := [1, 0, 0, 0, 0, 0, 0, 0, 0]\<rparr>
   \<and> sourceIdx 3 1 1 = 8
   \<and> stepOptimized (grid3\<lparr>u := [1, 0, 0, 0, 0, 0, 0, 0, 0]\<rparr>) 1 1 1 1 (1/4)
       = Inr (grid3\<lparr>uPrev := [1, 0, 0, 0, 0, 0, 0, 0, 1], u := [0, 0, 0, 0, 0, 0, 0, 0, 0]\<rparr>)"
proof -
  let ?g = "grid3\<lparr>u := [1, 0, 0, 0, 0, 0, 0, 0, 0]\<rparr>"
  have wf: "wellFormed ?g" by (simp add: wellFormed_def grid3_def)
  have s0: "stepOptimized grid3 1 1 0 0 (1/4) = Inr (grid3\<lparr>uPrev := [1, 0, 0, 0, 0, 0, 0, 0, 0]\<rparr>)"
    unfolding stepOptimized_eq [OF wellFormed_grid3]
    by (simp add: injectSource_def sourceIdx_def set_at_def get_at_def grid3_def sweep_def
        for_loop.simps Let_def eval_nat_numeral)
  have st: "step grid3 1 1 0 0 (1/4) = ?g"
    by (simp add: step_eq injectSource_def sourceIdx_def set_at_def grid3_def)
  have si: "sourceIdx 3 1 1 = 8" by (simp add: sourceIdx_def)
  have so: "stepOptimized ?g 1 1 1 1 (1/4)
       = Inr (grid3\<lparr>uPrev := [1, 0, 0, 0, 0, 0, 0, 0, 1], u := [0, 0, 0, 0, 0, 0, 0, 0, 0]\<rparr>)"
    unfolding stepOptimized_eq [OF wf]
    by (simp add: injectSource_def sourceIdx_def set_at_def get_at_def grid3_def sweep_def
        for_loop.simps Let_def eval_nat_numeral)
  show ?thesis using constructor_3 s0 st si so by simp
qed

text \<open>
  Claim C10. The method \<^verbatim>\<open>step\<close> changes the current field at the driven cell only,
  storing \<open>a * sin (2 * pi * f * t)\<close> there (nothing at all when the index is outside the
  array); every other cell of the current field, the previous field, both maps and the
  side length are unchanged. The stencil values of its loop are dropped.
\<close>

theorem step_only_source:
  "let i = sourceIdx (gridSize g) px py; g' = step g f a px py t in
     u g' = set_at (u g) i (a * sin (2 * pi * f * t))
   \<and> length (u g') = length (u g)
   \<and> (\<forall>j<length (u g). int j \<noteq> i \<longrightarrow> u g' ! j = u g ! j)
   \<and> (0 \<le> i \<and> i < int (length (u g)) \<longrightarrow> get_at (u g') i = a * sin (2 * pi * f * t))
   \<and> uPrev g' = uPrev g \<and> velocityMap g' = velocityMap g \<and> dampingMap g' = dampingMap g
   \<and> gridSize g' = gridSize g"
  unfolding Let_def step_eq
  by (auto simp: injectSource_def set_at_def get_at_def nth_list_update)

text \<open>
  On the 3 by 3 solver, \<^verbatim>\<open>step\<close> with the source in cell 1 stores 1 there and leaves the
  previous field alone.
\<close>

theorem step_only_source_witness:
  "u (step grid3 1 1 (1/2) 0 (1/4)) = [0, 1, 0, 0, 0, 0, 0, 0, 0]
   \<and> get_at (u (step grid3 1 1 (1/2) 0 (1/4))) 1 = 1
   \<and> uPrev (step grid3 1 1 (1/2) 0 (1/4)) = uPrev grid3"
proof -
  have i: "sourceIdx (gridSize grid3) (1/2) 0 = 1" by (simp add: sourceIdx_def gridSize_grid3)
  have ug: "u grid3 = [0, 0, 0, 0, 0, 0, 0, 0, 0]" by (simp add: grid3_def)
  have sa: "set_at [0, 0, 0, 0, 0, 0, 0, 0, 0] 1 1 = [0, 1, 0, 0, 0, 0, 0, 0, 0]"
    by (simp add: set_at_def)
  show ?thesis
    using step_only_source [of grid3 "1/2" 0 1 1 "1/4"] unfolding Let_def i ug
    by (simp add: sa get_at_def)
qed

section \<open>Painting\<close>

lemma updateMaterial_other [simp]:
  "u (updateMaterial g x y m b) = u g" "uPrev (updateMaterial g x y m b) = uPrev g"
  "dampingMap (updateMaterial g x y m b) = dampingMap g"
  "gridSize (updateMaterial g x y m b) = gridSize g"
  by (simp_all add: updateMaterial_def Let_def)

lemma updateMaterial_upd:
  "upd_on (brushCells (gridSize g) x y (b div 2))
     (\<lambda>j. speedOfSound (MATERIALS m) * speedOfSound (MATERIALS m))
     (velocityMap g) (velocityMap (updateMaterial g x y m b))"
proof -
  let ?s = "gridSize g" and ?r = "b div 2"
  let ?c2 = "speedOfSound (MATERIALS m) * speedOfSound (MATERIALS m)"
  let ?w = "\<lambda>j::int. ?c2"
  let ?ok = "\<lambda>dx dy. x + dx \<ge> 0 \<and> x + dx < ?s \<and> y + dy \<ge> 0 \<and> y + dy < ?s"
  let ?body = "\<lambda>dy dx vm. if ?ok dx dy then set_at vm ((y + dy) * ?s + (x + dx)) ?c2 else vm"
  have inner: "upd_on (if ?ok dx dy then {(y + dy) * ?s + (x + dx)} else {}) ?w vm (?body dy dx vm)"
    for dx dy vm
  proof (cases "?ok dx dy")
    case True
    have "upd_on {(y + dy) * ?s + (x + dx)} ?w vm (set_at vm ((y + dy) * ?s + (x + dx)) ?c2)"
      by (rule upd_on_set_at) (rule refl)
    moreover have "(if ?ok dx dy then {(y + dy) * ?s + (x + dx)} else {}) = {(y + dy) * ?s + (x + dx)}"
      using True by (rule if_P)
    moreover have "?body dy dx vm = set_at vm ((y + dy) * ?s + (x + dx)) ?c2"
      using True by (rule if_P)
    ultimately show ?thesis by (simp only:)
  next
    case False
    have "(if ?ok dx dy then {(y + dy) * ?s + (x + dx)} else {}) = {}"
      using False by (rule if_not_P)
    moreover have "?body dy dx vm = vm"
      using False by (rule if_not_P)
    ultimately show ?thesis by (simp only: upd_on_refl)
  qed
  have row: "upd_on (\<Union>dx\<in>{- ?r..<?r + 1}. if ?ok dx dy then {(y + dy) * ?s + (x + dx)} else {}) ?w vm
               (for_loop (- ?r) (?r + 1) (?body dy) vm)" for dy vm
    by (rule upd_on_for_loop) (rule inner)
  have all: "upd_on (\<Union>dy\<in>{- ?r..<?r + 1}. \<Union>dx\<in>{- ?r..<?r + 1}.
                 if ?ok dx dy then {(y + dy) * ?s + (x + dx)} else {}) ?w
               (velocityMap g)
               (for_loop (- ?r) (?r + 1) (\<lambda>dy. for_loop (- ?r) (?r + 1) (?body dy)) (velocityMap g))"
    by (rule upd_on_for_loop) (rule row)
  have W: "(\<Union>dy\<in>{- ?r..<?r + 1}. \<Union>dx\<in>{- ?r..<?r + 1}.
                 if ?ok dx dy then {(y + dy) * ?s + (x + dx)} else {}) = brushCells ?s x y ?r"
  proof (intro set_eqI iffI)
    fix j assume "j \<in> (\<Union>dy\<in>{- ?r..<?r + 1}. \<Union>dx\<in>{- ?r..<?r + 1}.
                 if ?ok dx dy then {(y + dy) * ?s + (x + dx)} else {})"
    then obtain dx dy where d: "- ?r \<le> dx" "dx < ?r + 1" "- ?r \<le> dy" "dy < ?r + 1" "?ok dx dy"
        "j = (y + dy) * ?s + (x + dx)"
      by (auto split: if_splits)
    then have "\<bar>(x + dx) - x\<bar> \<le> ?r \<and> \<bar>(y + dy) - y\<bar> \<le> ?r \<and> 0 \<le> x + dx \<and> x + dx < ?s
        \<and> 0 \<le> y + dy \<and> y + dy < ?s \<and> j = (y + dy) * ?s + (x + dx)"
      by (simp add: abs_le_iff)
    then show "j \<in> brushCells ?s x y ?r" unfolding brushCells_def by blast
  next
    fix j assume "j \<in> brushCells ?s x y ?r"
    then obtain nx ny where n: "\<bar>nx - x\<bar> \<le> ?r" "\<bar>ny - y\<bar> \<le> ?r" "0 \<le> nx" "nx < ?s" "0 \<le> ny" "ny < ?s"
        "j = ny * ?s + nx"
      unfolding brushCells_def by blast
    have ok: "?ok (nx - x) (ny - y)" using n by simp
    have "j \<in> (if ?ok (nx - x) (ny - y) then {(y + (ny - y)) * ?s + (x + (nx - x))} else {})"
      using n ok by simp
    moreover have "nx - x \<in> {- ?r..<?r + 1}" "ny - y \<in> {- ?r..<?r + 1}"
      using n(1,2) by (simp_all add: abs_le_iff)
    ultimately show "j \<in> (\<Union>dy\<in>{- ?r..<?r + 1}. \<Union>dx\<in>{- ?r..<?r + 1}.
                 if ?ok dx dy then {(y + dy) * ?s + (x + dx)} else {})"
      by (intro UN_I [of "ny - y"] UN_I [of "nx - x"])
  qed
  show ?thesis
    unfolding updateMaterial_def Let_def using all [unfolded W] by simp
qed

text \<open>
  Claim C6. For every centre \<open>(cx, cy)\<close>, material and brush size \<open>r\<close>, after
  \<^verbatim>\<open>updateMaterial\<close> a cell \<open>(x, y)\<close> of the grid holds the squared sound speed of the
  material in the velocity map if \<open>\<bar>x - cx\<bar> \<le> r div 2\<close> and \<open>\<bar>y - cy\<bar> \<le> r div 2\<close>, and
  its old value otherwise; the array keeps its length, and the two fields, the damping
  map and the side length are unchanged. Nothing is raised: the method returns a solver
  for every input. For a non-negative half-width \<open>h = r div 2\<close> the neighbourhood has
  \<open>(2 * h + 1)\<^sup>2\<close> positions before clipping.
\<close>

theorem updateMaterial_paints:
  assumes "wellFormed g" "0 \<le> x" "x < gridSize g" "0 \<le> y" "y < gridSize g"
  shows "let s = gridSize g; h = r div 2; c = speedOfSound (MATERIALS m);
             g' = updateMaterial g cx cy m r in
           get_at (velocityMap g') (y * s + x)
             = (if \<bar>x - cx\<bar> \<le> h \<and> \<bar>y - cy\<bar> \<le> h then c\<^sup>2
                else get_at (velocityMap g) (y * s + x))
         \<and> length (velocityMap g') = length (velocityMap g)
         \<and> u g' = u g \<and> uPrev g' = uPrev g \<and> dampingMap g' = dampingMap g \<and> gridSize g' = s
         \<and> (0 \<le> h \<longrightarrow> card {(nx, ny). \<bar>nx - cx\<bar> \<le> h \<and> \<bar>ny - cy\<bar> \<le> h} = nat ((2 * h + 1)\<^sup>2))"
proof -
  let ?s = "gridSize g" and ?h = "r div 2"
  let ?c2 = "speedOfSound (MATERIALS m) * speedOfSound (MATERIALS m)"
  let ?g' = "updateMaterial g cx cy m r"
  have up: "upd_on (brushCells ?s cx cy ?h) (\<lambda>j. ?c2) (velocityMap g) (velocityMap ?g')"
    by (rule updateMaterial_upd)
  have j: "int (nat (y * ?s + x)) = y * ?s + x" "nat (y * ?s + x) < nat (?s * ?s)"
    using cell_nat [OF assms(2-5)] .
  have len: "length (velocityMap g) = nat (?s * ?s)" using assms(1) by (simp add: wellFormed_def)
  have "velocityMap ?g' ! nat (y * ?s + x)
          = (if int (nat (y * ?s + x)) \<in> brushCells ?s cx cy ?h then ?c2
             else velocityMap g ! nat (y * ?s + x))"
    by (rule upd_on_nth [OF up]) (simp only: len j(2))
  then have cell: "velocityMap ?g' ! nat (y * ?s + x)
          = (if \<bar>x - cx\<bar> \<le> ?h \<and> \<bar>y - cy\<bar> \<le> ?h then ?c2 else velocityMap g ! nat (y * ?s + x))"
    unfolding j(1) brushCells_mem [OF assms(2-5)] .
  have l: "length (velocityMap ?g') = length (velocityMap g)"
    using up by (simp add: upd_on_def)
  show ?thesis
    unfolding Let_def using cell l square_card [of ?h cx cy]
    by (simp add: get_at_def power2_eq_square)
qed

text \<open>
  On the 3 by 3 solver, steel painted at the corner \<open>(0, 0)\<close> with brush size 3 reaches
  cell 0 and not cell 2.
\<close>

theorem updateMaterial_paints_witness:
  "wellFormed grid3 \<and> (0::int) \<le> 0 \<and> 0 < gridSize grid3 \<and> (0::int) \<le> 2 \<and> 2 < gridSize grid3
   \<and> get_at (velocityMap (updateMaterial grid3 0 0 STEEL 3)) 0 = 35521600
   \<and> get_at (velocityMap (updateMaterial grid3 0 0 STEEL 3)) 2 = 117649"
proof -
  have h: "(0::int) \<le> 0" "0 < gridSize grid3" "(0::int) \<le> 2" "2 < gridSize grid3"
    by (simp_all add: gridSize_grid3)
  have v: "get_at (velocityMap grid3) 2 = 117649" by (simp add: grid3_def get_at_def)
  show ?thesis
    using updateMaterial_paints [OF wellFormed_grid3 h(1) h(2) h(1) h(2), of 3 STEEL 0 0]
      updateMaterial_paints [OF wellFormed_grid3 h(3) h(4) h(1) h(2), of 3 STEEL 0 0] h v
    unfolding Let_def gridSize_grid3
    by (simp add: wellFormed_grid3)
qed

text \<open>
  Claim C9. Painting twice with the same arguments gives the same solver as painting
  once.
\<close>

theorem updateMaterial_idempotent:
  "updateMaterial (updateMaterial g x y m b) x y m b = updateMaterial g x y m b"
proof -
  let ?g1 = "updateMaterial g x y m b"
  have 1: "upd_on (brushCells (gridSize g) x y (b div 2))
     (\<lambda>j. speedOfSound (MATERIALS m) * speedOfSound (MATERIALS m))
     (velocityMap g) (velocityMap ?g1)" by (rule updateMaterial_upd)
  have 2: "upd_on (brushCells (gridSize g) x y (b div 2))
     (\<lambda>j. speedOfSound (MATERIALS m) * speedOfSound (MATERIALS m))
     (velocityMap ?g1) (velocityMap (updateMaterial ?g1 x y m b))"
    using updateMaterial_upd [of ?g1 x y b m] by simp
  have v: "velocityMap (updateMaterial ?g1 x y m b) = velocityMap ?g1"
    by (rule upd_on_idem [OF 1 2])
  have "updateMaterial ?g1 x y m b = ?g1\<lparr>velocityMap := velocityMap (updateMaterial ?g1 x y m b)\<rparr>"
    by (simp add: updateMaterial_def Let_def)
  then show ?thesis unfolding v by simp
qed

end
